theory Spec2Isabelle
  imports Main "HOL-Library.AList"
begin

section \<open>Data model of gogetopt\<close>

text \<open>
  Go strings are byte sequences: a \<open>string\<close> here is the list of the bytes, \<open>length\<close> is
  Go's \<open>len\<close> and \<open>drop n\<close> is the slice \<open>s[n:]\<close>.

  The package keeps its registry and its results in package-level variables. They are
  the fields of the record \<open>state\<close>, which every operation takes and returns.
  The maps the code only indexes (\<open>shortKeys\<close>, \<open>longKeys\<close>, \<open>boolVals\<close>, \<open>stringVals\<close>
  and the local \<open>foundReqs\<close>) are partial functions. The two maps the code also ranges
  over or measures with \<open>len\<close> (\<open>opts\<close>, \<open>requiredOpts\<close>) are association lists, read with
  \<open>map_of\<close>, written with \<open>AList.update\<close> and \<open>AList.delete\<close>. Go leaves the iteration order
  of a map open; the list order is one such order.
\<close>

record opt =
  key :: string
  long :: string
  short :: string
  isBool :: bool
  required :: bool
  usage :: string

record state =
  opts :: "(string \<times> opt) list"
  shortKeys :: "string \<rightharpoonup> opt"
  longKeys :: "string \<rightharpoonup> opt"
  requiredOpts :: "(string \<times> bool) list"
  boolVals :: "string \<rightharpoonup> bool"
  stringVals :: "string \<rightharpoonup> string"
  extraArgs :: "string list"
  parseError :: string

type_synonym found = "string \<rightharpoonup> bool"

definition ERR_MISSING_VAL :: string where
  "ERR_MISSING_VAL = ''Missing value for option: ''"

definition ERR_NO_OPT :: string where
  "ERR_NO_OPT = ''No such option: ''"

definition ERR_BOOL_REQ :: string where
  "ERR_BOOL_REQ = ''An option can't be both boolean and required: ''"

definition ERR_REQ :: string where
  "ERR_REQ = ''Required option(s) not provided: ''"

definition ERR_BOOL_WITH_VAL :: string where
  "ERR_BOOL_WITH_VAL = ''Boolean options can't be passed values: ''"

definition ERR_NONBOOL_MULTI :: string where
  "ERR_NONBOOL_MULTI = ''Combined opts can't be non-boolean: ''"

definition ERR_NO_KEY :: string where
  "ERR_NO_KEY = ''An option must contain either a long or short key (or both): ''"

definition ERR_SHORT_TOO_LONG :: string where
  "ERR_SHORT_TOO_LONG = ''A short option can be no longer one character: ''"

definition ERR_LONG_TOO_SHORT :: string where
  "ERR_LONG_TOO_SHORT = ''A long option must be longer than one character: ''"

definition ERR_OPT_KEY_ALREADY_EXISTS :: string where
  "ERR_OPT_KEY_ALREADY_EXISTS = ''An option was already registered with key: ''"

definition ERR_SHORT_ALREADY_EXISTS :: string where
  "ERR_SHORT_ALREADY_EXISTS = ''An option was already registered with short key: ''"

definition ERR_LONG_ALREADY_EXISTS :: string where
  "ERR_LONG_ALREADY_EXISTS = ''An option was already registered with long key: ''"

text \<open>The package's \<open>init\<close>: every map and the positional list empty, no error.\<close>

definition init_state :: state where
  "init_state = \<lparr> opts = [], shortKeys = Map.empty, longKeys = Map.empty,
     requiredOpts = [], boolVals = Map.empty, stringVals = Map.empty,
     extraArgs = [], parseError = [] \<rparr>"

section \<open>The four regular expressions\<close>

text \<open>
  \<open>init\<close> compiles \<open>^-.+\<close>, \<open>^--.+\<close>, \<open>^-.+=\<close> and \<open>^--.+=\<close>, and the code only asks
  \<open>MatchString\<close>, which is anchored at the start by \<open>^\<close> and open at the end. Go's \<open>.\<close>
  matches every character but the newline (byte 10). The bytes \<open>-\<close>, \<open>=\<close> and newline
  are ASCII, which never occur inside a multi-byte UTF-8 sequence, so matching byte by
  byte gives the same answer as matching rune by rune.
\<close>

definition newline :: char where
  "newline = CHR 0x0A"

fun singleDash :: "string \<Rightarrow> bool" where
  "singleDash (c # d # r) = (c = CHR ''-'' \<and> d \<noteq> newline)"
| "singleDash r = False"

fun multiDash :: "string \<Rightarrow> bool" where
  "multiDash (c # d # e # r) = (c = CHR ''-'' \<and> d = CHR ''-'' \<and> e \<noteq> newline)"
| "multiDash r = False"

text \<open>\<open>.+=\<close> at the start of \<open>s\<close>: an \<open>=\<close> after at least one character, with no
  newline before it.\<close>

definition dotPlusEquals :: "string \<Rightarrow> bool" where
  "dotPlusEquals s = (CHR ''='' \<in> set (tl (takeWhile (\<lambda>c. c \<noteq> newline) s)))"

fun singleDashEquals :: "string \<Rightarrow> bool" where
  "singleDashEquals (c # r) = (c = CHR ''-'' \<and> dotPlusEquals r)"
| "singleDashEquals r = False"

fun multiDashEquals :: "string \<Rightarrow> bool" where
  "multiDashEquals (c # d # r) = (c = CHR ''-'' \<and> d = CHR ''-'' \<and> dotPlusEquals r)"
| "multiDashEquals r = False"

section \<open>Helper functions of the parser\<close>

definition stripDashes :: "string \<Rightarrow> string" where
  "stripDashes arg =
     (if multiDash arg then drop 2 arg
      else if singleDash arg then drop 1 arg
      else arg)"

text \<open>\<open>strings.Split(s, "=")\<close>: the pieces between the separators, one more than there
  are separators; the empty string gives one empty piece.\<close>

fun splitOn :: "char \<Rightarrow> string \<Rightarrow> string list" where
  "splitOn sep [] = [[]]"
| "splitOn sep (c # cs) =
     (if c = sep then [] # splitOn sep cs
      else (case splitOn sep cs of
              [] \<Rightarrow> [[c]]
            | p # ps \<Rightarrow> (c # p) # ps))"

definition splitEqualsArg :: "string \<Rightarrow> string list option" where
  "splitEqualsArg arg =
     (let workingArg = stripDashes arg;
          parts = splitOn (CHR ''='') workingArg
      in if length parts = 2
         then (if length (parts ! 1) > 0 then Some parts else None)
         else None)"

text \<open>
  \<open>lookaheadForVal\<close> returns the empty string both when there is no next argument and
  when the next argument looks like an option. The index is a \<open>nat\<close>: the caller passes
  the loop counter, which starts at 1.
\<close>

definition lookaheadForVal :: "string list \<Rightarrow> nat \<Rightarrow> string" where
  "lookaheadForVal args currentKey =
     (if int (length args) - 1 > int currentKey
      then (let nextVal = args ! (currentKey + 1)
            in if singleDashEquals nextVal \<or> singleDash nextVal \<or>
                  multiDashEquals nextVal \<or> multiDash nextVal
               then []
               else nextVal)
      else [])"

text \<open>
  \<open>getMultiOptKeys\<close> cuts the argument with \<open>strings.Split(s, "")\<close>, which yields one
  string per UTF-8 sequence, a byte that starts no valid sequence being a piece of its
  own. \<open>runeWidth\<close> is the size that \<open>utf8.DecodeRuneInString\<close> reports: 1 for an
  ASCII byte and for an invalid one, else the length of the sequence.
\<close>

definition inRange :: "nat \<Rightarrow> nat \<Rightarrow> char \<Rightarrow> bool" where
  "inRange lo hi c = (lo \<le> of_char c \<and> (of_char c :: nat) \<le> hi)"

definition runeWidth :: "string \<Rightarrow> nat" where
  "runeWidth s =
     (case s of
        [] \<Rightarrow> 0
      | s0 # r \<Rightarrow>
          (let b = (of_char s0 :: nat) in
           if b < 0xC2 \<or> 0xF4 < b then 1
           else
             (let sz = (if b < 0xE0 then 2 else if b < 0xF0 then 3 else (4::nat));
                  lo = (if b = 0xE0 then 0xA0 else if b = 0xF0 then 0x90 else (0x80::nat));
                  hi = (if b = 0xED then 0x9F else if b = 0xF4 then 0x8F else (0xBF::nat))
              in if length s < sz then 1
                 else if \<not> inRange lo hi (s ! 1) then 1
                 else if sz \<le> 2 then 2
                 else if \<not> inRange 0x80 0xBF (s ! 2) then 1
                 else if sz \<le> 3 then 3
                 else if \<not> inRange 0x80 0xBF (s ! 3) then 1
                 else 4)))"

function explode :: "string \<Rightarrow> string list" where
  "explode s =
     (if s = [] then []
      else take (runeWidth s) s # explode (drop (runeWidth s) s))"
  by pat_completeness auto
termination
proof (relation "measure length")
  show "wf (measure length)" by simp
next
  fix s :: string
  assume "s \<noteq> []"
  then obtain c r where "s = c # r" by (cases s) auto
  then have "0 < runeWidth s" by (simp add: runeWidth_def Let_def)
  with \<open>s \<noteq> []\<close> show "(drop (runeWidth s) s, s) \<in> measure length" by simp
qed

declare explode.simps [simp del]

text \<open>\<open>string(b)\<close> for a byte \<open>b\<close> is the UTF-8 encoding of the code point \<open>b\<close>: the byte
  itself below 128, two bytes from 128 on.\<close>

definition byteString :: "char \<Rightarrow> string" where
  "byteString c =
     (if (of_char c :: nat) < 0x80 then [c]
      else [char_of (0xC0 + (of_char c :: nat) div 64),
            char_of (0x80 + (of_char c :: nat) mod 64)])"

text \<open>The loop of \<open>getMultiOptKeys\<close>: it collects the pieces and breaks at the first
  one that is no short key.\<close>

fun multiOptLoop :: "(string \<rightharpoonup> opt) \<Rightarrow> string list \<Rightarrow> string list \<Rightarrow> string list \<times> bool" where
  "multiOptLoop sk [] multiOptParts = (multiOptParts, True)"
| "multiOptLoop sk (part # parts) multiOptParts =
     (case sk part of
        None \<Rightarrow> (multiOptParts, False)
      | Some v \<Rightarrow> multiOptLoop sk parts (multiOptParts @ [part]))"

definition getMultiOptKeys :: "state \<Rightarrow> string \<Rightarrow> string list option" where
  "getMultiOptKeys st arg =
     (let workingArg = stripDashes arg;
          parts = explode workingArg;
          (multiOptParts, isMultiOpt) = multiOptLoop (shortKeys st) parts []
      in if isMultiOpt then Some multiOptParts else None)"

text \<open>
  A function that returns a value and an error is a \<open>result\<close>. \<open>NilPanic\<close> is the
  dereference of a nil \<open>*opt\<close>: \<open>getValForEqualsSignArg\<close> reads \<open>opt.isBool\<close> with \<open>opt\<close>
  still nil when its argument matches neither dash expression.
\<close>

datatype 'a result = Ok 'a | Err string | NilPanic

definition getValForEqualsSignArg :: "state \<Rightarrow> string \<Rightarrow> (string \<times> string) result" where
  "getValForEqualsSignArg st arg =
     (case splitEqualsArg arg of
        None \<Rightarrow> Err (ERR_MISSING_VAL @ arg)
      | Some parts \<Rightarrow>
          (if multiDash arg \<and> longKeys st (parts ! 0) = None
             then Err (ERR_NO_OPT @ parts ! 0)
           else if \<not> multiDash arg \<and> singleDash arg \<and> shortKeys st (parts ! 0) = None
             then Err (ERR_NO_OPT @ parts ! 0)
           else
             (case (if multiDash arg then longKeys st (parts ! 0)
                    else if singleDash arg then shortKeys st (parts ! 0)
                    else None) of
                None \<Rightarrow> NilPanic
              | Some opt \<Rightarrow>
                  if isBool opt then Err (ERR_BOOL_WITH_VAL @ arg)
                  else if length (parts ! 1) < 1 then Err (ERR_MISSING_VAL @ arg)
                  else Ok (key opt, parts ! 1))))"

text \<open>\<open>getMissingReqOptsError\<close>: the required keys that were not found, each shown by
  its forms, joined by commas after \<open>ERR_REQ\<close>; the empty string when none is missing.\<close>

definition msgKey :: "state \<Rightarrow> string \<Rightarrow> string" where
  "msgKey st mk =
     (case map_of (opts st) mk of
        None \<Rightarrow> mk
      | Some opt \<Rightarrow>
          (let m1 = (if short opt \<noteq> [] then ''-'' @ short opt else mk);
               m2 = (if long opt \<noteq> [] then ''--'' @ long opt else m1)
           in if short opt \<noteq> [] \<and> long opt \<noteq> []
              then ''-'' @ short opt @ '' or '' @ ''--'' @ long opt
              else m2))"

fun joinMissing :: "state \<Rightarrow> string list \<Rightarrow> string \<Rightarrow> string" where
  "joinMissing st [] errorText = errorText"
| "joinMissing st [mk] errorText = errorText @ msgKey st mk"
| "joinMissing st (mk # mks) errorText = joinMissing st mks (errorText @ msgKey st mk @ '', '')"

definition getMissingReqOptsError :: "state \<Rightarrow> found \<Rightarrow> (string \<times> bool) list \<Rightarrow> string" where
  "getMissingReqOptsError st foundReqOpts reqOpts =
     (let missingKeys = filter (\<lambda>reqName. foundReqOpts reqName = None) (map fst reqOpts)
      in if length missingKeys > 0 then joinMissing st missingKeys ERR_REQ else [])"

section \<open>The registry: RegisterOpt, Clear, ClearAll\<close>

text \<open>
  \<open>RegisterOpt\<close> returns its error (\<open>None\<close> is Go's \<open>nil\<close>) together with the globals as
  the call leaves them.
\<close>

definition RegisterOpt ::
  "state \<Rightarrow> string \<Rightarrow> string \<Rightarrow> string \<Rightarrow> bool \<Rightarrow> bool \<Rightarrow> string \<Rightarrow> string option \<times> state" where
  "RegisterOpt st k lng shrt isB isReq use =
     (let o' = \<lparr> key = k, long = stripDashes lng, short = stripDashes shrt,
                 isBool = isB, required = isReq, usage = use \<rparr>
      in if isBool o' \<and> required o' then (Some (ERR_BOOL_REQ @ key o'), st)
         else if short o' = [] \<and> long o' = [] then (Some (ERR_NO_KEY @ key o'), st)
         else if short o' \<noteq> [] \<and> length (short o') > 1
           then (Some (ERR_SHORT_TOO_LONG @ short o'), st)
         else if long o' \<noteq> [] \<and> length (long o') < 2
           then (Some (ERR_LONG_TOO_SHORT @ long o'), st)
         else if map_of (opts st) (key o') \<noteq> None
           then (Some (ERR_OPT_KEY_ALREADY_EXISTS @ key o'), st)
         else if short o' \<noteq> [] \<and> shortKeys st (short o') \<noteq> None
           then (Some (ERR_SHORT_ALREADY_EXISTS @ short o'), st)
         else if long o' \<noteq> [] \<and> longKeys st (long o') \<noteq> None
           then (Some (ERR_LONG_ALREADY_EXISTS @ long o'), st)
         else
           (let st1 = st\<lparr>opts := AList.update (key o') o' (opts st)\<rparr>;
                st2 = (if short o' \<noteq> []
                       then st1\<lparr>shortKeys := (shortKeys st1)(short o' \<mapsto> o')\<rparr> else st1);
                st3 = (if long o' \<noteq> []
                       then st2\<lparr>longKeys := (longKeys st2)(long o' \<mapsto> o')\<rparr> else st2);
                st4 = (if required o'
                       then st3\<lparr>requiredOpts := AList.update (key o') True (requiredOpts st3)\<rparr>
                       else st3)
            in (None, st4)))"

definition Clear :: "state \<Rightarrow> string \<Rightarrow> state" where
  "Clear st k =
     (case map_of (opts st) k of
        None \<Rightarrow> st
      | Some opt \<Rightarrow>
          (let st1 = (if short opt \<noteq> []
                      then st\<lparr>shortKeys := (shortKeys st)(short opt := None)\<rparr> else st);
               st2 = (if long opt \<noteq> []
                      then st1\<lparr>longKeys := (longKeys st1)(long opt := None)\<rparr> else st1);
               st3 = (if required opt
                      then st2\<lparr>requiredOpts := AList.delete (key opt) (requiredOpts st2)\<rparr>
                      else st2);
               st4 = (if isBool opt
                      then st3\<lparr>boolVals := (boolVals st3)(key opt := None)\<rparr>
                      else st3\<lparr>stringVals := (stringVals st3)(key opt := None)\<rparr>)
           in st4\<lparr>opts := AList.delete k (opts st4)\<rparr>))"

text \<open>\<open>ClearAll\<close> ranges over the keys of \<open>opts\<close> and clears each; \<open>Clear\<close> deletes from
  \<open>opts\<close> only the key it is given, so every key of the map is visited.\<close>

definition ClearAll :: "state \<Rightarrow> state" where
  "ClearAll st =
     (fold (\<lambda>k s. Clear s k) (map fst (opts st)) st)\<lparr>extraArgs := [], parseError := []\<rparr>"

definition GetString :: "state \<Rightarrow> string \<Rightarrow> string" where
  "GetString st k = (case stringVals st k of Some val \<Rightarrow> val | None \<Rightarrow> [])"

definition GetBool :: "state \<Rightarrow> string \<Rightarrow> bool" where
  "GetBool st k = (case boolVals st k of Some v \<Rightarrow> True | None \<Rightarrow> False)"

definition GetArgs :: "state \<Rightarrow> string list" where
  "GetArgs st = extraArgs st"

definition HasError :: "state \<Rightarrow> bool" where
  "HasError st = (if parseError st = [] then False else True)"

definition GetError :: "state \<Rightarrow> string option" where
  "GetError st = (if HasError st then Some (parseError st) else None)"

section \<open>Parse\<close>

text \<open>
  One round of the main loop of \<open>Parse\<close> either goes on (\<open>Next\<close>, with the globals, the
  local \<open>foundReqs\<close> and the loop counter as the body leaves them, before the \<open>i++\<close> of
  the \<open>for\<close>), or records an error and returns (\<open>Stop\<close>), or panics (\<open>Crash\<close>: a nil
  \<open>*opt\<close> dereferenced or an index out of range).
\<close>

datatype step_result = Next state found nat | Stop state | Crash

text \<open>The branch for \<open>-f=bar\<close> and \<open>--foo=bar\<close>.\<close>

definition equalsCase :: "state \<Rightarrow> found \<Rightarrow> nat \<Rightarrow> string \<Rightarrow> step_result" where
  "equalsCase st foundReqs i arg =
     (case getValForEqualsSignArg st arg of
        Err e \<Rightarrow> Stop (st\<lparr>parseError := e\<rparr>)
      | NilPanic \<Rightarrow> Crash
      | Ok (k, val) \<Rightarrow>
          Next (st\<lparr>stringVals := (stringVals st)(k \<mapsto> val)\<rparr>)
               (case map_of (opts st) k of
                  None \<Rightarrow> foundReqs
                | Some opt \<Rightarrow> if required opt then foundReqs(k \<mapsto> True) else foundReqs)
               i)"

text \<open>The lookahead for the value of a non-boolean \<open>--foo\<close> or \<open>-f\<close>; the code has it
  twice, once in the long and once in the short branch, the same but for the lookup.\<close>

definition lookaheadCase :: "state \<Rightarrow> found \<Rightarrow> string list \<Rightarrow> nat \<Rightarrow> string \<Rightarrow> opt \<Rightarrow> step_result" where
  "lookaheadCase st foundReqs args i arg opt =
     (let val = lookaheadForVal args i
      in if val = [] then Stop (st\<lparr>parseError := ERR_MISSING_VAL @ arg\<rparr>)
         else Next (st\<lparr>stringVals := (stringVals st)(key opt \<mapsto> val)\<rparr>)
                   (if required opt then foundReqs(key opt \<mapsto> True) else foundReqs)
                   (i + 1))"

definition longCase :: "state \<Rightarrow> found \<Rightarrow> string list \<Rightarrow> nat \<Rightarrow> string \<Rightarrow> step_result" where
  "longCase st foundReqs args i arg =
     (let stripped = stripDashes arg
      in case longKeys st stripped of
           None \<Rightarrow> Stop (st\<lparr>parseError := ERR_NO_OPT @ arg\<rparr>)
         | Some opt \<Rightarrow>
             if isBool opt
             then Next (st\<lparr>boolVals := (boolVals st)(key opt \<mapsto> True)\<rparr>) foundReqs i
             else lookaheadCase st foundReqs args i arg opt)"

text \<open>The two passes over the keys of a combined \<open>-lmx\<close>: the first stops at a
  non-boolean option, the second sets the values. Both read \<open>shortKeys[k]\<close> unchecked.\<close>

datatype multi_check = AllBool | NonBool string | NilOpt

fun checkMulti :: "(string \<rightharpoonup> opt) \<Rightarrow> string list \<Rightarrow> multi_check" where
  "checkMulti sk [] = AllBool"
| "checkMulti sk (k # ks) =
     (case sk k of
        None \<Rightarrow> NilOpt
      | Some opt \<Rightarrow> if \<not> isBool opt then NonBool k else checkMulti sk ks)"

fun setMulti :: "(string \<rightharpoonup> opt) \<Rightarrow> string list \<Rightarrow> (string \<rightharpoonup> bool) \<Rightarrow> (string \<rightharpoonup> bool) option" where
  "setMulti sk [] bv = Some bv"
| "setMulti sk (k # ks) bv =
     (case sk k of
        None \<Rightarrow> None
      | Some opt \<Rightarrow> setMulti sk ks (bv(key opt \<mapsto> True)))"

definition multiCase :: "state \<Rightarrow> found \<Rightarrow> nat \<Rightarrow> string list \<Rightarrow> step_result" where
  "multiCase st foundReqs i multiOpts =
     (case checkMulti (shortKeys st) multiOpts of
        NilOpt \<Rightarrow> Crash
      | NonBool k \<Rightarrow> Stop (st\<lparr>parseError := ERR_NONBOOL_MULTI @ k\<rparr>)
      | AllBool \<Rightarrow>
          (case setMulti (shortKeys st) multiOpts (boolVals st) of
             None \<Rightarrow> Crash
           | Some bv \<Rightarrow> Next (st\<lparr>boolVals := bv\<rparr>) foundReqs i))"

text \<open>The value written right after the switch, \<open>-lVAL\<close>.\<close>

definition smushedCase :: "state \<Rightarrow> found \<Rightarrow> nat \<Rightarrow> string \<Rightarrow> string \<Rightarrow> step_result" where
  "smushedCase st foundReqs i arg stripped =
     (case stripped of
        [] \<Rightarrow> Crash
      | c # rest \<Rightarrow>
          (let k = byteString c
           in case shortKeys st k of
                None \<Rightarrow> Stop (st\<lparr>parseError := ERR_NO_OPT @ k\<rparr>)
              | Some opt \<Rightarrow>
                  if isBool opt then Stop (st\<lparr>parseError := ERR_BOOL_WITH_VAL @ arg\<rparr>)
                  else Next (st\<lparr>stringVals := (stringVals st)(key opt \<mapsto> drop 1 stripped)\<rparr>)
                            (if required opt then foundReqs(key opt \<mapsto> True) else foundReqs)
                            i))"

definition shortCase :: "state \<Rightarrow> found \<Rightarrow> string list \<Rightarrow> nat \<Rightarrow> string \<Rightarrow> step_result" where
  "shortCase st foundReqs args i arg =
     (let stripped = stripDashes arg
      in if length stripped = 1
         then (case shortKeys st stripped of
                 Some opt \<Rightarrow>
                   if isBool opt
                   then Next (st\<lparr>boolVals := (boolVals st)(key opt \<mapsto> True)\<rparr>) foundReqs i
                   else lookaheadCase st foundReqs args i arg opt
               | None \<Rightarrow> Stop (st\<lparr>parseError := ERR_NO_OPT @ arg\<rparr>))
         else (case getMultiOptKeys st arg of
                 Some multiOpts \<Rightarrow> multiCase st foundReqs i multiOpts
               | None \<Rightarrow> smushedCase st foundReqs i arg stripped))"

definition step :: "state \<Rightarrow> found \<Rightarrow> string list \<Rightarrow> nat \<Rightarrow> step_result" where
  "step st foundReqs args i =
     (let arg = args ! i
      in if singleDashEquals arg \<or> multiDashEquals arg then equalsCase st foundReqs i arg
         else if multiDash arg then longCase st foundReqs args i arg
         else if singleDash arg then shortCase st foundReqs args i arg
         else Next (st\<lparr>extraArgs := extraArgs st @ [arg]\<rparr>) foundReqs i)"

text \<open>The \<open>for\<close> loop, from the counter \<open>i\<close> on. \<open>Done\<close> is the loop left at its end, with
  the globals and \<open>foundReqs\<close>; \<open>Halted\<close> is the \<open>return\<close> after an error was recorded.\<close>

datatype loop_result = Done state found | Halted state | Panicked

function parseLoop :: "state \<Rightarrow> found \<Rightarrow> string list \<Rightarrow> nat \<Rightarrow> loop_result" where
  "parseLoop st foundReqs args i =
     (if i < length args
      then (case step st foundReqs args i of
              Stop st' \<Rightarrow> Halted st'
            | Crash \<Rightarrow> Panicked
            | Next st' foundReqs' i' \<Rightarrow> parseLoop st' foundReqs' args (i' + 1))
      else Done st foundReqs)"
  by pat_completeness auto
termination
proof (relation "measure (\<lambda>(st, foundReqs, args, i). length args - i)")
  show "wf (measure (\<lambda>(st, foundReqs, args, i). length args - i))" by simp
next
  fix st :: state and foundReqs :: found and args :: "string list" and i :: nat
    and st' :: state and foundReqs' :: found and i' :: nat
  assume lt: "i < length args" and nx: "step st foundReqs args i = Next st' foundReqs' i'"
  have look: "\<And>arg opt. lookaheadCase st foundReqs args i arg opt = Next st' foundReqs' i' \<Longrightarrow> i \<le> i'"
    by (auto simp: lookaheadCase_def Let_def split: if_splits)
  have eq: "\<And>arg. equalsCase st foundReqs i arg = Next st' foundReqs' i' \<Longrightarrow> i \<le> i'"
    by (auto simp: equalsCase_def split: result.splits prod.splits)
  have lg: "\<And>arg. longCase st foundReqs args i arg = Next st' foundReqs' i' \<Longrightarrow> i \<le> i'"
    by (auto simp: longCase_def Let_def split: option.splits if_splits dest: look)
  have mu: "\<And>ks. multiCase st foundReqs i ks = Next st' foundReqs' i' \<Longrightarrow> i \<le> i'"
    by (auto simp: multiCase_def split: multi_check.splits option.splits)
  have sm: "\<And>arg s. smushedCase st foundReqs i arg s = Next st' foundReqs' i' \<Longrightarrow> i \<le> i'"
    by (auto simp: smushedCase_def Let_def split: list.splits option.splits if_splits)
  have sh: "\<And>arg. shortCase st foundReqs args i arg = Next st' foundReqs' i' \<Longrightarrow> i \<le> i'"
    by (auto simp: shortCase_def Let_def split: option.splits if_splits dest: look mu sm)
  from nx have "i \<le> i'"
    by (auto simp: step_def Let_def split: if_splits dest: eq lg sh)
  with lt show "((st', foundReqs', args, i' + 1), (st, foundReqs, args, i))
      \<in> measure (\<lambda>(st, foundReqs, args, i). length args - i)"
    by simp
qed

declare parseLoop.simps [simp del]

text \<open>\<open>Parse\<close> reads \<open>os.Args\<close>, here the argument \<open>args\<close>, and leaves its results in the
  globals; \<open>None\<close> is a panic.\<close>

definition Parse :: "state \<Rightarrow> string list \<Rightarrow> state option" where
  "Parse st args =
     (let foundReqs = Map.empty
      in if length args < 2
         then (if length (requiredOpts st) > 0
               then Some (st\<lparr>parseError := getMissingReqOptsError st foundReqs (requiredOpts st)\<rparr>)
               else Some st)
         else (case parseLoop st foundReqs args 1 of
                 Halted st' \<Rightarrow> Some st'
               | Panicked \<Rightarrow> None
               | Done st' foundReqs' \<Rightarrow>
                   if length (requiredOpts st') > 0
                   then Some (st'\<lparr>parseError :=
                                 getMissingReqOptsError st' foundReqs' (requiredOpts st')\<rparr>)
                   else Some st'))"

section \<open>The consistency of the registry\<close>

text \<open>
  The property that claim C9 states of the three indexes and the required set: every
  option in \<open>opts\<close> sits under its own key and, by each of its non-empty forms, in
  \<open>shortKeys\<close> and \<open>longKeys\<close>; every entry of \<open>shortKeys\<close> and of \<open>longKeys\<close> sits under the
  option's non-empty form and is the option that \<open>opts\<close> holds under its key; and the
  keys of \<open>requiredOpts\<close> are the keys of the registered options marked required.
\<close>

definition consistent :: "state \<Rightarrow> bool" where
  "consistent st \<longleftrightarrow>
     (\<forall>k p. map_of (opts st) k = Some p \<longrightarrow>
        key p = k \<and>
        (short p \<noteq> [] \<longrightarrow> shortKeys st (short p) = Some p) \<and>
        (long p \<noteq> [] \<longrightarrow> longKeys st (long p) = Some p)) \<and>
     (\<forall>s p. shortKeys st s = Some p \<longrightarrow>
        s \<noteq> [] \<and> short p = s \<and> map_of (opts st) (key p) = Some p) \<and>
     (\<forall>l p. longKeys st l = Some p \<longrightarrow>
        l \<noteq> [] \<and> long p = l \<and> map_of (opts st) (key p) = Some p) \<and>
     (\<forall>k. k \<in> fst ` set (requiredOpts st) \<longleftrightarrow>
        (\<exists>p. map_of (opts st) k = Some p \<and> required p))"

text \<open>The calls by which a program changes the registry, and a sequence of them run
  from the state of \<open>init\<close>. The error that \<open>RegisterOpt\<close> returns goes to the caller; the
  globals are what the next call finds.\<close>

datatype api_call =
    CallRegisterOpt string string string bool bool string
  | CallClear string
  | CallClearAll

fun call :: "state \<Rightarrow> api_call \<Rightarrow> state" where
  "call st (CallRegisterOpt k lng shrt isB isReq use) =
     snd (RegisterOpt st k lng shrt isB isReq use)"
| "call st (CallClear k) = Clear st k"
| "call st CallClearAll = ClearAll st"

definition run :: "api_call list \<Rightarrow> state" where
  "run calls = foldl call init_state calls"

section \<open>Evaluating the definitions\<close>

lemmas eval_defs = RegisterOpt_def init_state_def stripDashes_def Parse_def parseLoop.simps
  step_def equalsCase_def longCase_def shortCase_def lookaheadCase_def lookaheadForVal_def
  multiCase_def smushedCase_def getMultiOptKeys_def getValForEqualsSignArg_def
  splitEqualsArg_def dotPlusEquals_def newline_def Let_def explode.simps runeWidth_def
  byteString_def getMissingReqOptsError_def msgKey_def

lemmas reg_defs = RegisterOpt_def init_state_def stripDashes_def dotPlusEquals_def
  newline_def Let_def

section \<open>What the four expressions accept\<close>

lemma dotPlusEquals_head: "dotPlusEquals r \<Longrightarrow> \<exists>d r'. r = d # r' \<and> d \<noteq> newline"
  by (cases r) (auto simp: dotPlusEquals_def split: if_splits)

lemma singleDashEquals_singleDash: "singleDashEquals a \<Longrightarrow> singleDash a"
  by (cases a) (auto dest: dotPlusEquals_head)

lemma multiDashEquals_multiDash: "multiDashEquals a \<Longrightarrow> multiDash a"
  by (cases a rule: multiDashEquals.cases) (auto dest: dotPlusEquals_head)

lemma multiDash_singleDash: "multiDash a \<Longrightarrow> singleDash a"
  by (cases a rule: multiDash.cases) (auto simp: newline_def)

text \<open>Everything any of the four expressions matches, \<open>^-.+\<close> matches: the test of
  \<open>lookaheadForVal\<close> amounts to \<open>singleDash\<close>.\<close>

lemma lookahead_guard:
  "(singleDashEquals n \<or> singleDash n \<or> multiDashEquals n \<or> multiDash n) = singleDash n"
  using singleDashEquals_singleDash multiDashEquals_multiDash multiDash_singleDash by blast

lemma positional_shape: "take 1 a \<noteq> ''-'' \<or> a = ''-'' \<Longrightarrow> \<not> singleDash a"
  by (cases a rule: singleDash.cases) auto

section \<open>Positional arguments\<close>

lemma step_positional:
  "\<not> singleDash (args ! i) \<Longrightarrow>
   step st f args i = Next (st\<lparr>extraArgs := extraArgs st @ [args ! i]\<rparr>) f i"
  using singleDashEquals_singleDash multiDashEquals_multiDash multiDash_singleDash
  by (auto simp: step_def Let_def)

lemma parseLoop_positional:
  "\<forall>a\<in>set (drop i args). \<not> singleDash a \<Longrightarrow>
   parseLoop st f args i = Done (st\<lparr>extraArgs := extraArgs st @ drop i args\<rparr>) f"
proof (induction "length args - i" arbitrary: i st)
  case 0
  then show ?case by (simp add: parseLoop.simps)
next
  case (Suc n)
  then have lt: "i < length args" by simp
  then have d: "drop i args = args ! i # drop (Suc i) args"
    by (simp add: Cons_nth_drop_Suc)
  with Suc.prems have ns: "\<not> singleDash (args ! i)"
    and rest: "\<forall>a\<in>set (drop (Suc i) args). \<not> singleDash a"
    by simp_all
  from Suc.hyps(2) have n: "n = length args - Suc i" by simp
  show ?case
    using lt Suc.hyps(1)[OF n rest, of "st\<lparr>extraArgs := extraArgs st @ [args ! i]\<rparr>"]
    by (subst parseLoop.simps) (simp add: step_positional[OF ns] d)
qed

text \<open>
  Claim C1, as the code has it. A token at which the loop stands and that has no leading
  dash (the empty string too), or that is a lone \<open>-\<close>, is appended as it is to the end of
  \<open>extraArgs\<close>; nothing else changes, no error is recorded, and the loop goes on with the
  next token. Hence a run of such tokens is appended in the order met. (A lone \<open>--\<close> is
  not among them: \<open>^-.+\<close> matches it.)
\<close>

theorem positional_tokens_appended:
  "(i < length args \<and> (take 1 (args ! i) \<noteq> ''-'' \<or> args ! i = ''-'') \<longrightarrow>
      step st f args i = Next (st\<lparr>extraArgs := extraArgs st @ [args ! i]\<rparr>) f i \<and>
      parseLoop st f args i =
        parseLoop (st\<lparr>extraArgs := extraArgs st @ [args ! i]\<rparr>) f args (Suc i)) \<and>
   ((\<forall>a\<in>set (drop i args). take 1 a \<noteq> ''-'' \<or> a = ''-'') \<longrightarrow>
      parseLoop st f args i = Done (st\<lparr>extraArgs := extraArgs st @ drop i args\<rparr>) f)"
proof (intro conjI impI)
  assume a: "i < length args \<and> (take 1 (args ! i) \<noteq> ''-'' \<or> args ! i = ''-'')"
  then have ns: "\<not> singleDash (args ! i)" by (simp add: positional_shape)
  show "step st f args i = Next (st\<lparr>extraArgs := extraArgs st @ [args ! i]\<rparr>) f i"
    by (rule step_positional[OF ns])
  from a show "parseLoop st f args i =
      parseLoop (st\<lparr>extraArgs := extraArgs st @ [args ! i]\<rparr>) f args (Suc i)"
    by (subst parseLoop.simps) (simp add: step_positional[OF ns])
next
  assume "\<forall>a\<in>set (drop i args). take 1 a \<noteq> ''-'' \<or> a = ''-''"
  then have "\<forall>a\<in>set (drop i args). \<not> singleDash a"
    using positional_shape by blast
  then show "parseLoop st f args i = Done (st\<lparr>extraArgs := extraArgs st @ drop i args\<rparr>) f"
    by (rule parseLoop_positional)
qed

theorem positional_tokens_appended_witness:
  "step init_state Map.empty [''prog'', ''x'', ''-'', ''y''] 1 =
     Next (init_state\<lparr>extraArgs := [''x'']\<rparr>) Map.empty 1 \<and>
   parseLoop init_state Map.empty [''prog'', ''x'', ''-'', ''y''] 1 =
     Done (init_state\<lparr>extraArgs := [''x'', ''-'', ''y'']\<rparr>) Map.empty"
proof -
  note t = positional_tokens_appended[of 1 "[''prog'', ''x'', ''-'', ''y'']" init_state Map.empty]
  have h1: "1 < length [''prog'', ''x'', ''-'', ''y''] \<and>
      (take 1 ([''prog'', ''x'', ''-'', ''y''] ! 1) \<noteq> ''-'' \<or>
       [''prog'', ''x'', ''-'', ''y''] ! 1 = ''-'')"
    by simp
  have h2: "\<forall>a\<in>set (drop 1 [''prog'', ''x'', ''-'', ''y'']). take 1 a \<noteq> ''-'' \<or> a = ''-''"
    by simp
  have a: "step init_state Map.empty [''prog'', ''x'', ''-'', ''y''] 1 =
      Next (init_state\<lparr>extraArgs := [''x'']\<rparr>) Map.empty 1"
    using t[THEN conjunct1, THEN mp, OF h1, THEN conjunct1] by (simp add: init_state_def)
  have b: "parseLoop init_state Map.empty [''prog'', ''x'', ''-'', ''y''] 1 =
      Done (init_state\<lparr>extraArgs := [''x'', ''-'', ''y'']\<rparr>) Map.empty"
    using t[THEN conjunct2, THEN mp, OF h2] by (simp add: init_state_def)
  from a b show ?thesis by simp
qed

text \<open>Against C1 as stated: with nothing registered, the lone \<open>--\<close> is not appended to the
  positional arguments; the scan stops with "No such option".\<close>

theorem lone_double_dash_counterexample:
  "Parse init_state [''prog'', ''--''] =
     Some (init_state\<lparr>parseError := ''No such option: --''\<rparr>)"
  by (simp add: eval_defs ERR_NO_OPT_def)

section \<open>The value in the next argument\<close>

lemma multiDashEquals_singleDashEquals: "multiDashEquals a \<Longrightarrow> singleDashEquals a"
proof (cases a rule: multiDashEquals.cases)
  case (1 c d r)
  assume "multiDashEquals a"
  with 1 have c: "c = CHR ''-''" "d = CHR ''-''" and e: "dotPlusEquals r" by simp_all
  from e have "CHR ''='' \<in> set (takeWhile (\<lambda>c. c \<noteq> newline) r)"
    unfolding dotPlusEquals_def by (metis list.sel(2) list.set_sel(2))
  with 1 c show ?thesis by (simp add: dotPlusEquals_def newline_def)
qed simp_all

lemma lookaheadForVal_eq:
  "lookaheadForVal args i =
     (if Suc i < length args \<and> \<not> singleDash (args ! Suc i) then args ! Suc i else [])"
  by (auto simp: lookaheadForVal_def Let_def lookahead_guard)

lemma lookaheadCase_eq:
  "lookaheadCase st f args i arg opt =
     (if Suc i < length args \<and> args ! Suc i \<noteq> [] \<and> \<not> singleDash (args ! Suc i)
      then Next (st\<lparr>stringVals := (stringVals st)(key opt \<mapsto> args ! Suc i)\<rparr>)
                (if required opt then f(key opt \<mapsto> True) else f) (Suc i)
      else Stop (st\<lparr>parseError := ERR_MISSING_VAL @ arg\<rparr>))"
  by (auto simp: lookaheadCase_def lookaheadForVal_eq Let_def)







section \<open>The five ways to write a value\<close>

text \<open>
  Claim C5. The registry holds one non-boolean option, short \<open>t\<close> and long \<open>test\<close>,
  registered in the state of \<open>init\<close> under any key, required or not. Each of the five
  argument lists, parsed from that state, leaves no error and the value under the key.
\<close>

theorem five_forms_round_trip:
  "fst (RegisterOpt init_state k ''test'' ''t'' False req u) = None \<and>
   map_option (\<lambda>s. (GetError s, GetString s k))
     (Parse (snd (RegisterOpt init_state k ''test'' ''t'' False req u))
        [''prog'', ''-t=val1'']) = Some (None, ''val1'') \<and>
   map_option (\<lambda>s. (GetError s, GetString s k))
     (Parse (snd (RegisterOpt init_state k ''test'' ''t'' False req u))
        [''prog'', ''--test=val2'']) = Some (None, ''val2'') \<and>
   map_option (\<lambda>s. (GetError s, GetString s k))
     (Parse (snd (RegisterOpt init_state k ''test'' ''t'' False req u))
        [''prog'', ''-t'', ''val3'']) = Some (None, ''val3'') \<and>
   map_option (\<lambda>s. (GetError s, GetString s k))
     (Parse (snd (RegisterOpt init_state k ''test'' ''t'' False req u))
        [''prog'', ''--test'', ''val4'']) = Some (None, ''val4'') \<and>
   map_option (\<lambda>s. (GetError s, GetString s k))
     (Parse (snd (RegisterOpt init_state k ''test'' ''t'' False req u))
        [''prog'', ''-tval5'']) = Some (None, ''val5'')"
  by (simp add: eval_defs GetError_def HasError_def GetString_def)

section \<open>A value that contains an equals sign\<close>

text \<open>
  Claim C2 at \<open>--xx=a=b\<close> and \<open>-x=a=b\<close>, with \<open>xx\<close> and \<open>x\<close> the forms of a registered
  non-boolean option: \<open>splitEqualsArg\<close> splits at every \<open>=\<close>, finds three parts and returns
  nil, and \<open>Parse\<close> reports a missing value and binds nothing.
\<close>

theorem equals_in_value_is_rejected:
  "map_option (\<lambda>s. (GetError s, stringVals s ''xx''))
     (Parse (snd (RegisterOpt init_state ''xx'' ''xx'' ''x'' False False ''u''))
        [''prog'', ''--xx=a=b'']) =
     Some (Some ''Missing value for option: --xx=a=b'', None) \<and>
   map_option (\<lambda>s. (GetError s, stringVals s ''xx''))
     (Parse (snd (RegisterOpt init_state ''xx'' ''xx'' ''x'' False False ''u''))
        [''prog'', ''-x=a=b'']) =
     Some (Some ''Missing value for option: -x=a=b'', None) \<and>
   splitEqualsArg ''--xx=a=b'' = None \<and>
   splitOn (CHR ''='') ''xx=a=b'' = [''xx'', ''a'', ''b'']"
  by (simp add: eval_defs GetError_def HasError_def ERR_MISSING_VAL_def)

section \<open>Registration and clearing\<close>

lemma consistent_init: "consistent init_state"
  by (simp add: consistent_def init_state_def)

lemma consistent_opts:
  assumes "consistent st" and "map_of (opts st) k = Some p"
  shows "key p = k"
    and "short p \<noteq> [] \<Longrightarrow> shortKeys st (short p) = Some p"
    and "long p \<noteq> [] \<Longrightarrow> longKeys st (long p) = Some p"
  using assms unfolding consistent_def by blast+

lemma consistent_short:
  assumes "consistent st" and "shortKeys st s = Some p"
  shows "s \<noteq> []" and "short p = s" and "map_of (opts st) (key p) = Some p"
  using assms unfolding consistent_def by blast+

lemma consistent_long:
  assumes "consistent st" and "longKeys st l = Some p"
  shows "l \<noteq> []" and "long p = l" and "map_of (opts st) (key p) = Some p"
  using assms unfolding consistent_def by blast+

lemma consistent_required:
  assumes "consistent st"
  shows "k \<in> fst ` set (requiredOpts st) \<longleftrightarrow>
         (\<exists>p. map_of (opts st) k = Some p \<and> required p)"
  using assms unfolding consistent_def by blast

lemma fst_set_delete: "fst ` set (AList.delete k al) = fst ` set al - {k}"
  by (induction al) (auto simp: AList.delete_eq)

text \<open>What a successful \<open>RegisterOpt\<close> found and what it wrote.\<close>

lemma RegisterOpt_ok_fields:
  assumes "RegisterOpt st k l s b r u = (None, st')"
  defines "p \<equiv> \<lparr> key = k, long = stripDashes l, short = stripDashes s, isBool = b,
                    required = r, usage = u \<rparr>"
  shows "map_of (opts st) k = None"
    and "short p \<noteq> [] \<Longrightarrow> shortKeys st (short p) = None"
    and "long p \<noteq> [] \<Longrightarrow> longKeys st (long p) = None"
    and "map_of (opts st') = (map_of (opts st))(k \<mapsto> p)"
    and "shortKeys st' =
           (if short p \<noteq> [] then (shortKeys st)(short p \<mapsto> p) else shortKeys st)"
    and "longKeys st' =
           (if long p \<noteq> [] then (longKeys st)(long p \<mapsto> p) else longKeys st)"
    and "fst ` set (requiredOpts st') =
           (if r then insert k (fst ` set (requiredOpts st)) else fst ` set (requiredOpts st))"
proof -
  from assms(1) have ok: "map_of (opts st) k = None"
    "stripDashes s \<noteq> [] \<Longrightarrow> shortKeys st (stripDashes s) = None"
    "stripDashes l \<noteq> [] \<Longrightarrow> longKeys st (stripDashes l) = None"
    by (auto simp: RegisterOpt_def Let_def split: if_splits)
  from assms(1) ok have st': "st' =
     (let st1 = st\<lparr>opts := AList.update k p (opts st)\<rparr>;
          st2 = (if short p \<noteq> []
                 then st1\<lparr>shortKeys := (shortKeys st1)(short p \<mapsto> p)\<rparr> else st1);
          st3 = (if long p \<noteq> []
                 then st2\<lparr>longKeys := (longKeys st2)(long p \<mapsto> p)\<rparr> else st2);
          st4 = (if required p
                 then st3\<lparr>requiredOpts := AList.update k True (requiredOpts st3)\<rparr>
                 else st3)
      in st4)"
    unfolding p_def by (simp add: RegisterOpt_def Let_def split: if_splits)
  show "map_of (opts st) k = None" by (rule ok)
  show "short p \<noteq> [] \<Longrightarrow> shortKeys st (short p) = None" using ok(2) by (simp add: p_def)
  show "long p \<noteq> [] \<Longrightarrow> longKeys st (long p) = None" using ok(3) by (simp add: p_def)
  show "map_of (opts st') = (map_of (opts st))(k \<mapsto> p)"
    by (simp add: st' Let_def update_conv')
  show "shortKeys st' =
      (if short p \<noteq> [] then (shortKeys st)(short p \<mapsto> p) else shortKeys st)"
    by (simp add: st' Let_def)
  show "longKeys st' =
      (if long p \<noteq> [] then (longKeys st)(long p \<mapsto> p) else longKeys st)"
    by (simp add: st' Let_def)
  show "fst ` set (requiredOpts st') =
      (if r then insert k (fst ` set (requiredOpts st)) else fst ` set (requiredOpts st))"
    by (simp add: st' Let_def dom_update p_def)
qed

lemma RegisterOpt_error_state:
  "fst (RegisterOpt st k l s b r u) \<noteq> None \<Longrightarrow> snd (RegisterOpt st k l s b r u) = st"
  by (simp add: RegisterOpt_def Let_def split: if_splits)

lemma RegisterOpt_consistent:
  assumes c: "consistent st" and r: "RegisterOpt st k l s b r u = (None, st')"
  shows "consistent st'"
proof -
  define p where "p = \<lparr> key = k, long = stripDashes l, short = stripDashes s, isBool = b,
    required = r, usage = u \<rparr>"
  note f = RegisterOpt_ok_fields[OF r, folded p_def]
  note co = consistent_opts[OF c] and cs = consistent_short[OF c]
    and cl = consistent_long[OF c]
  have ko: "key p = k" "required p = r" by (simp_all add: p_def)
  show ?thesis
    unfolding consistent_def
  proof (intro conjI allI impI)
    fix k2 o2 assume "map_of (opts st') k2 = Some o2"
    then have d: "k2 = k \<and> o2 = p \<or> k2 \<noteq> k \<and> map_of (opts st) k2 = Some o2"
      by (auto simp: f(4) split: if_splits)
    from d show "key o2 = k2" by (auto simp: ko dest: co(1))
    { assume "short o2 \<noteq> []"
      with d f(2) show "shortKeys st' (short o2) = Some o2"
        by (auto simp: f(5) dest: co(2)) }
    { assume "long o2 \<noteq> []"
      with d f(3) show "longKeys st' (long o2) = Some o2"
        by (auto simp: f(6) dest: co(3)) }
  next
    fix s2 o2 assume "shortKeys st' s2 = Some o2"
    then have d: "short p \<noteq> [] \<and> s2 = short p \<and> o2 = p \<or> shortKeys st s2 = Some o2"
      by (auto simp: f(5) split: if_splits)
    from d show "s2 \<noteq> []" by (auto dest: cs(1))
    from d show "short o2 = s2" by (auto dest: cs(2))
    from d f(1) show "map_of (opts st') (key o2) = Some o2"
      by (auto simp: f(4) ko dest: cs(3))
  next
    fix l2 o2 assume "longKeys st' l2 = Some o2"
    then have d: "long p \<noteq> [] \<and> l2 = long p \<and> o2 = p \<or> longKeys st l2 = Some o2"
      by (auto simp: f(6) split: if_splits)
    from d show "l2 \<noteq> []" by (auto dest: cl(1))
    from d show "long o2 = l2" by (auto dest: cl(2))
    from d f(1) show "map_of (opts st') (key o2) = Some o2"
      by (auto simp: f(4) ko dest: cl(3))
  next
    fix k2
    show "k2 \<in> fst ` set (requiredOpts st') \<longleftrightarrow>
          (\<exists>p. map_of (opts st') k2 = Some p \<and> required p)"
      using f(1) by (auto simp: f(4) f(7) consistent_required[OF c] ko)
  qed
qed

lemma Clear_absent: "map_of (opts st) k = None \<Longrightarrow> Clear st k = st"
  by (simp add: Clear_def)

lemma Clear_fields:
  assumes "map_of (opts st) k = Some p"
  shows "map_of (opts (Clear st k)) = (map_of (opts st))(k := None)"
    and "shortKeys (Clear st k) =
           (if short p \<noteq> [] then (shortKeys st)(short p := None) else shortKeys st)"
    and "longKeys (Clear st k) =
           (if long p \<noteq> [] then (longKeys st)(long p := None) else longKeys st)"
    and "fst ` set (requiredOpts (Clear st k)) =
           (if required p then fst ` set (requiredOpts st) - {key p}
            else fst ` set (requiredOpts st))"
  using assms by (simp_all add: Clear_def Let_def delete_conv' fst_set_delete)

lemma Clear_consistent:
  assumes c: "consistent st"
  shows "consistent (Clear st k)"
proof (cases "map_of (opts st) k")
  case None
  with c show ?thesis by (simp add: Clear_absent)
next
  case (Some p)
  note f = Clear_fields[OF Some]
  note co = consistent_opts[OF c] and cs = consistent_short[OF c]
    and cl = consistent_long[OF c]
  have kp: "key p = k" using co(1)[OF Some] .
  show ?thesis
    unfolding consistent_def
  proof (intro conjI allI impI)
    fix k2 o2 assume "map_of (opts (Clear st k)) k2 = Some o2"
    then have d: "k2 \<noteq> k" "map_of (opts st) k2 = Some o2"
      by (auto simp: f(1) split: if_splits)
    from d(2) show "key o2 = k2" by (rule co(1))
    have ne: "o2 \<noteq> p" using d(1) co(1)[OF d(2)] kp by auto
    { assume s: "short o2 \<noteq> []"
      have "short p \<noteq> [] \<Longrightarrow> short o2 \<noteq> short p"
        using co(2)[OF d(2) s] co(2)[OF Some] ne by auto
      then show "shortKeys (Clear st k) (short o2) = Some o2"
        using co(2)[OF d(2) s] by (simp add: f(2)) }
    { assume s: "long o2 \<noteq> []"
      have "long p \<noteq> [] \<Longrightarrow> long o2 \<noteq> long p"
        using co(3)[OF d(2) s] co(3)[OF Some] ne by auto
      then show "longKeys (Clear st k) (long o2) = Some o2"
        using co(3)[OF d(2) s] by (simp add: f(3)) }
  next
    fix s2 o2 assume a: "shortKeys (Clear st k) s2 = Some o2"
    then have d: "shortKeys st s2 = Some o2" and n: "short p \<noteq> [] \<Longrightarrow> s2 \<noteq> short p"
      by (auto simp: f(2) split: if_splits)
    show "s2 \<noteq> []" using cs(1)[OF d] .
    show "short o2 = s2" using cs(2)[OF d] .
    have "o2 \<noteq> p" using n cs(1)[OF d] cs(2)[OF d] by auto
    then have "key o2 \<noteq> k" using cs(3)[OF d] Some by auto
    then show "map_of (opts (Clear st k)) (key o2) = Some o2"
      using cs(3)[OF d] by (simp add: f(1))
  next
    fix l2 o2 assume a: "longKeys (Clear st k) l2 = Some o2"
    then have d: "longKeys st l2 = Some o2" and n: "long p \<noteq> [] \<Longrightarrow> l2 \<noteq> long p"
      by (auto simp: f(3) split: if_splits)
    show "l2 \<noteq> []" using cl(1)[OF d] .
    show "long o2 = l2" using cl(2)[OF d] .
    have "o2 \<noteq> p" using n cl(1)[OF d] cl(2)[OF d] by auto
    then have "key o2 \<noteq> k" using cl(3)[OF d] Some by auto
    then show "map_of (opts (Clear st k)) (key o2) = Some o2"
      using cl(3)[OF d] by (simp add: f(1))
  next
    fix k2
    show "k2 \<in> fst ` set (requiredOpts (Clear st k)) \<longleftrightarrow>
          (\<exists>p. map_of (opts (Clear st k)) k2 = Some p \<and> required p)"
      using Some by (auto simp: f(1) f(4) kp consistent_required[OF c])
  qed
qed

lemma fold_Clear_consistent:
  "consistent st \<Longrightarrow> consistent (fold (\<lambda>k s. Clear s k) ks st)"
  by (induction ks arbitrary: st) (simp_all add: Clear_consistent)

lemma ClearAll_consistent: "consistent st \<Longrightarrow> consistent (ClearAll st)"
  using fold_Clear_consistent[of st "map fst (opts st)"]
  by (simp add: ClearAll_def consistent_def)

lemma call_consistent: "consistent st \<Longrightarrow> consistent (call st c)"
proof (cases c)
  case (CallRegisterOpt k l s b r u)
  assume c: "consistent st"
  show ?thesis
  proof (cases "fst (RegisterOpt st k l s b r u)")
    case None
    then have "RegisterOpt st k l s b r u = (None, snd (RegisterOpt st k l s b r u))"
      by (metis prod.collapse)
    from RegisterOpt_consistent[OF c this] CallRegisterOpt show ?thesis by simp
  next
    case (Some e)
    then have "snd (RegisterOpt st k l s b r u) = st"
      by (simp add: RegisterOpt_error_state)
    with c CallRegisterOpt show ?thesis by simp
  qed
qed (simp_all add: Clear_consistent ClearAll_consistent)

lemma foldl_call_consistent: "consistent st \<Longrightarrow> consistent (foldl call st calls)"
  by (induction calls arbitrary: st) (simp_all add: call_consistent)

text \<open>
  Claim C9. After any sequence of \<open>RegisterOpt\<close>, \<open>Clear\<close> and \<open>ClearAll\<close> calls, made from
  the state of \<open>init\<close>, the indexes and the required set are consistent.
\<close>

theorem registry_stays_consistent: "consistent (run calls)"
  unfolding run_def by (rule foldl_call_consistent[OF consistent_init])

theorem registry_stays_consistent_witness:
  "consistent (run [CallRegisterOpt ''k1'' ''first'' ''f'' False True ''u'',
                    CallRegisterOpt ''k2'' ''--second'' ''-s'' True False ''u'',
                    CallRegisterOpt ''k3'' ''second'' '''' True False ''u'',
                    CallClear ''k1'']) \<and>
   map (\<lambda>(k, p). (k, short p, long p))
     (opts (run [CallRegisterOpt ''k1'' ''first'' ''f'' False True ''u'',
                 CallRegisterOpt ''k2'' ''--second'' ''-s'' True False ''u'',
                 CallRegisterOpt ''k3'' ''second'' '''' True False ''u'',
                 CallClear ''k1''])) = [(''k2'', ''s'', ''second'')]"
  using registry_stays_consistent[of
      "[CallRegisterOpt ''k1'' ''first'' ''f'' False True ''u'',
        CallRegisterOpt ''k2'' ''--second'' ''-s'' True False ''u'',
        CallRegisterOpt ''k3'' ''second'' '''' True False ''u'',
        CallClear ''k1'']"]
  by (simp add: run_def reg_defs Clear_def)

text \<open>
  Claim C8. A \<open>RegisterOpt\<close> that returns an error returns one of the seven messages and
  leaves the globals as they were. For an option of valid shape (not both boolean and
  required, a form given, the short form of one character, the long form of two or
  more), a key, a short form or a long form that is already registered is refused, in
  that order, and the state, with the first registration in it, stays.
\<close>

theorem register_is_all_or_nothing:
  "(\<forall>e st'. RegisterOpt st k l s b r u = (Some e, st') \<longrightarrow>
      st' = st \<and>
      e \<in> {ERR_BOOL_REQ @ k, ERR_NO_KEY @ k,
           ERR_SHORT_TOO_LONG @ stripDashes s, ERR_LONG_TOO_SHORT @ stripDashes l,
           ERR_OPT_KEY_ALREADY_EXISTS @ k,
           ERR_SHORT_ALREADY_EXISTS @ stripDashes s,
           ERR_LONG_ALREADY_EXISTS @ stripDashes l}) \<and>
   (\<not> (b \<and> r) \<and> \<not> (stripDashes s = [] \<and> stripDashes l = []) \<and>
    length (stripDashes s) \<le> 1 \<and> (stripDashes l = [] \<or> 2 \<le> length (stripDashes l)) \<longrightarrow>
      (map_of (opts st) k \<noteq> None \<longrightarrow>
         RegisterOpt st k l s b r u = (Some (ERR_OPT_KEY_ALREADY_EXISTS @ k), st)) \<and>
      (map_of (opts st) k = None \<and> stripDashes s \<noteq> [] \<and>
       shortKeys st (stripDashes s) \<noteq> None \<longrightarrow>
         RegisterOpt st k l s b r u = (Some (ERR_SHORT_ALREADY_EXISTS @ stripDashes s), st)) \<and>
      (map_of (opts st) k = None \<and>
       (stripDashes s = [] \<or> shortKeys st (stripDashes s) = None) \<and>
       stripDashes l \<noteq> [] \<and> longKeys st (stripDashes l) \<noteq> None \<longrightarrow>
         RegisterOpt st k l s b r u = (Some (ERR_LONG_ALREADY_EXISTS @ stripDashes l), st)))"
  by (auto simp: RegisterOpt_def Let_def split: if_splits)

theorem register_is_all_or_nothing_witness:
  "RegisterOpt (snd (RegisterOpt init_state ''sovalid'' ''soval'' ''s'' True False ''u''))
      ''sovalid'' ''meha'' ''m'' True False ''u'' =
     (Some ''An option was already registered with key: sovalid'',
      snd (RegisterOpt init_state ''sovalid'' ''soval'' ''s'' True False ''u'')) \<and>
   RegisterOpt (snd (RegisterOpt init_state ''sovalid'' ''soval'' ''s'' True False ''u''))
      ''newsovalid'' ''soval'' ''x'' True False ''u'' =
     (Some ''An option was already registered with long key: soval'',
      snd (RegisterOpt init_state ''sovalid'' ''soval'' ''s'' True False ''u'')) \<and>
   RegisterOpt (snd (RegisterOpt init_state ''sovalid'' ''soval'' ''s'' True False ''u''))
      ''newestsovalid'' ''wow'' ''s'' True False ''u'' =
     (Some ''An option was already registered with short key: s'',
      snd (RegisterOpt init_state ''sovalid'' ''soval'' ''s'' True False ''u''))"
proof -
  let ?st = "snd (RegisterOpt init_state ''sovalid'' ''soval'' ''s'' True False ''u'')"
  have a: "RegisterOpt ?st ''sovalid'' ''meha'' ''m'' True False ''u'' =
      (Some ''An option was already registered with key: sovalid'', ?st)"
    using register_is_all_or_nothing[of ?st "''sovalid''" "''meha''" "''m''" True False "''u''",
        THEN conjunct2]
    by (simp add: reg_defs ERR_OPT_KEY_ALREADY_EXISTS_def)
  have b: "RegisterOpt ?st ''newsovalid'' ''soval'' ''x'' True False ''u'' =
      (Some ''An option was already registered with long key: soval'', ?st)"
    using register_is_all_or_nothing[of ?st "''newsovalid''" "''soval''" "''x''" True False "''u''",
        THEN conjunct2]
    by (simp add: reg_defs ERR_LONG_ALREADY_EXISTS_def)
  have c: "RegisterOpt ?st ''newestsovalid'' ''wow'' ''s'' True False ''u'' =
      (Some ''An option was already registered with short key: s'', ?st)"
    using register_is_all_or_nothing[of ?st "''newestsovalid''" "''wow''" "''s''" True False "''u''",
        THEN conjunct2]
    by (simp add: reg_defs ERR_SHORT_ALREADY_EXISTS_def)
  from a b c show ?thesis by simp
qed

section \<open>Combined switches and values written after the switch\<close>

lemma multiOptLoop_eq:
  "multiOptLoop sk parts acc =
     (if \<forall>p\<in>set parts. sk p \<noteq> None then (acc @ parts, True)
      else (acc @ takeWhile (\<lambda>p. sk p \<noteq> None) parts, False))"
  by (induction parts arbitrary: acc) (auto split: option.splits)

lemma getMultiOptKeys_eq:
  "getMultiOptKeys st arg =
     (if \<forall>p\<in>set (explode (stripDashes arg)). shortKeys st p \<noteq> None
      then Some (explode (stripDashes arg)) else None)"
  by (simp add: getMultiOptKeys_def Let_def multiOptLoop_eq)

lemma checkMulti_eq:
  "\<forall>k\<in>set ks. sk k \<noteq> None \<Longrightarrow>
   checkMulti sk ks =
     (case filter (\<lambda>k. \<not> isBool (the (sk k))) ks of [] \<Rightarrow> AllBool | k # r \<Rightarrow> NonBool k)"
  by (induction ks) (auto split: option.splits)

lemma setMulti_eq:
  "\<forall>k\<in>set ks. sk k \<noteq> None \<Longrightarrow>
   setMulti sk ks bv =
     Some (\<lambda>x. if x \<in> (\<lambda>k. key (the (sk k))) ` set ks then Some True else bv x)"
proof (induction ks arbitrary: bv)
  case Nil
  then show ?case by simp
next
  case (Cons k ks)
  then obtain p where p: "sk k = Some p" by auto
  from Cons.prems have "\<forall>k\<in>set ks. sk k \<noteq> None" by simp
  from Cons.IH[OF this] p show ?case by (auto simp: fun_eq_iff)
qed

text \<open>On ASCII text a character is a byte: \<open>explode\<close> yields the bytes one by one, and
  \<open>byteString\<close> is the byte.\<close>

lemma runeWidth_ascii: "(of_char c :: nat) < 128 \<Longrightarrow> runeWidth (c # s) = 1"
  by (simp add: runeWidth_def)

lemma explode_ascii: "\<forall>c\<in>set s. (of_char c :: nat) < 128 \<Longrightarrow> explode s = map (\<lambda>c. [c]) s"
proof (induction s)
  case Nil
  show ?case by (simp add: explode.simps)
next
  case (Cons c s)
  then show ?case by (subst explode.simps) (simp add: runeWidth_ascii)
qed

lemma byteString_ascii: "(of_char c :: nat) < 128 \<Longrightarrow> byteString c = [c]"
  by (simp add: byteString_def)

lemma step_short_long:
  assumes "singleDash (args ! i)" "\<not> multiDash (args ! i)" "\<not> singleDashEquals (args ! i)"
    and "length (stripDashes (args ! i)) > 1"
  shows "step st f args i =
     (case getMultiOptKeys st (args ! i) of
        Some multiOpts \<Rightarrow> multiCase st f i multiOpts
      | None \<Rightarrow> smushedCase st f i (args ! i) (stripDashes (args ! i)))"
  using assms multiDashEquals_singleDashEquals[of "args ! i"]
  by (auto simp: step_def shortCase_def Let_def)

lemma multiCase_eq:
  assumes "\<forall>k\<in>set ks. shortKeys st k \<noteq> None"
  shows "multiCase st f i ks =
     (case filter (\<lambda>k. \<not> isBool (the (shortKeys st k))) ks of
        [] \<Rightarrow> Next (st\<lparr>boolVals := (\<lambda>x. if x \<in> (\<lambda>k. key (the (shortKeys st k))) ` set ks
                                          then Some True else boolVals st x)\<rparr>) f i
      | k # r \<Rightarrow> Stop (st\<lparr>parseError := ERR_NONBOOL_MULTI @ k\<rparr>))"
  by (simp add: multiCase_def checkMulti_eq[OF assms] setMulti_eq[OF assms] split: list.splits)

text \<open>
  The step at a short-form token (\<open>^-.+\<close> matches, \<open>^--.+\<close> and the equals expressions do
  not) with more than one byte after the dash. Its characters are the pieces \<open>explode\<close>
  yields. If every one of them is a short key: when one of the options is not boolean
  the scan stops with \<open>ERR_NONBOOL_MULTI\<close> and the first such key, else \<open>boolVals\<close> gets every
  one of the options' keys, and nothing else changes. If not every piece is a short key,
  the key looked up is \<open>byteString\<close> of the first byte: unknown gives \<open>ERR_NO_OPT\<close> with it,
  a boolean option gives \<open>ERR_BOOL_WITH_VAL\<close> with the token, and a non-boolean option
  gets the rest of the token, as it is, as its value, and is marked found if required.
\<close>

lemma short_cluster_step:
  assumes "i < length args"
    and "singleDash (args ! i)" "\<not> multiDash (args ! i)" "\<not> singleDashEquals (args ! i)"
    and "length (stripDashes (args ! i)) > 1"
  shows
    "((\<forall>c\<in>set (explode (stripDashes (args ! i))). shortKeys st c \<noteq> None) \<longrightarrow>
        ((\<exists>c\<in>set (explode (stripDashes (args ! i))). \<not> isBool (the (shortKeys st c))) \<longrightarrow>
           step st f args i =
             Stop (st\<lparr>parseError := ERR_NONBOOL_MULTI @
                     hd (filter (\<lambda>c. \<not> isBool (the (shortKeys st c)))
                           (explode (stripDashes (args ! i))))\<rparr>)) \<and>
        ((\<forall>c\<in>set (explode (stripDashes (args ! i))). isBool (the (shortKeys st c))) \<longrightarrow>
           step st f args i =
             Next (st\<lparr>boolVals :=
                       (\<lambda>x. if x \<in> (\<lambda>c. key (the (shortKeys st c))) `
                                     set (explode (stripDashes (args ! i)))
                            then Some True else boolVals st x)\<rparr>) f i)) \<and>
     (\<not> (\<forall>c\<in>set (explode (stripDashes (args ! i))). shortKeys st c \<noteq> None) \<longrightarrow>
        (shortKeys st (byteString (hd (stripDashes (args ! i)))) = None \<longrightarrow>
           step st f args i =
             Stop (st\<lparr>parseError := ERR_NO_OPT @ byteString (hd (stripDashes (args ! i)))\<rparr>)) \<and>
        (\<forall>opt. shortKeys st (byteString (hd (stripDashes (args ! i)))) = Some opt \<longrightarrow>
           (isBool opt \<longrightarrow>
              step st f args i = Stop (st\<lparr>parseError := ERR_BOOL_WITH_VAL @ args ! i\<rparr>)) \<and>
           (\<not> isBool opt \<longrightarrow>
              step st f args i =
                Next (st\<lparr>stringVals :=
                          (stringVals st)(key opt \<mapsto> tl (stripDashes (args ! i)))\<rparr>)
                     (if required opt then f(key opt \<mapsto> True) else f) i)))"
proof -
  let ?s = "stripDashes (args ! i)"
  let ?ks = "explode ?s"
  note s = step_short_long[OF assms(2-5), of st f]
  from assms(5) obtain c r where cr: "?s = c # r" by (cases ?s) auto
  show ?thesis
  proof (cases "\<forall>c\<in>set ?ks. shortKeys st c \<noteq> None")
    case True
    note m = multiCase_eq[OF True, of f i]
    have "(\<exists>c\<in>set ?ks. \<not> isBool (the (shortKeys st c))) \<Longrightarrow>
        filter (\<lambda>c. \<not> isBool (the (shortKeys st c))) ?ks \<noteq> []"
      by (simp add: filter_empty_conv)
    moreover have "(\<forall>c\<in>set ?ks. isBool (the (shortKeys st c))) \<Longrightarrow>
        filter (\<lambda>c. \<not> isBool (the (shortKeys st c))) ?ks = []"
      by (simp add: filter_empty_conv)
    ultimately show ?thesis
      using True by (auto simp: s getMultiOptKeys_eq m split: list.splits)
  next
    case False
    then show ?thesis
      by (auto simp: s getMultiOptKeys_eq smushedCase_def cr Let_def drop_Suc)
  qed
qed


lemma short_cluster_examples:
  "step (run [CallRegisterOpt ''ka'' [] ''a'' True False ''u'',
              CallRegisterOpt ''kb'' [] ''b'' True False ''u'',
              CallRegisterOpt ''kc'' [] ''c'' False True ''u'']) Map.empty
      [''prog'', ''-cab''] 1 =
     Stop ((run [CallRegisterOpt ''ka'' [] ''a'' True False ''u'',
                 CallRegisterOpt ''kb'' [] ''b'' True False ''u'',
                 CallRegisterOpt ''kc'' [] ''c'' False True ''u''])
             \<lparr>parseError := ''Combined opts can't be non-boolean: c''\<rparr>) \<and>
   step (run [CallRegisterOpt ''ka'' [] ''a'' True False ''u'',
              CallRegisterOpt ''kb'' [] ''b'' True False ''u'',
              CallRegisterOpt ''kc'' [] ''c'' False True ''u'']) Map.empty
      [''prog'', ''-cfoo''] 1 =
     Next ((run [CallRegisterOpt ''ka'' [] ''a'' True False ''u'',
                 CallRegisterOpt ''kb'' [] ''b'' True False ''u'',
                 CallRegisterOpt ''kc'' [] ''c'' False True ''u''])
             \<lparr>stringVals := [''kc'' \<mapsto> ''foo'']\<rparr>) [''kc'' \<mapsto> True] 1 \<and>
   (case step (run [CallRegisterOpt ''ka'' [] ''a'' True False ''u'',
                    CallRegisterOpt ''kb'' [] ''b'' True False ''u'',
                    CallRegisterOpt ''kc'' [] ''c'' False True ''u'']) Map.empty
           [''prog'', ''-ab''] 1 of
      Next st' f' i' \<Rightarrow> (boolVals st' ''ka'', boolVals st' ''kb'', boolVals st' ''kc'', i')
    | Stop st' \<Rightarrow> (None, None, None, 0)
    | Crash \<Rightarrow> (None, None, None, 0)) = (Some True, Some True, None, 1)"
proof -
  let ?st = "run [CallRegisterOpt ''ka'' [] ''a'' True False ''u'',
                  CallRegisterOpt ''kb'' [] ''b'' True False ''u'',
                  CallRegisterOpt ''kc'' [] ''c'' False True ''u'']"
  note ev = run_def reg_defs explode.simps runeWidth_def byteString_def
  have a: "step ?st Map.empty [''prog'', ''-cab''] 1 =
      Stop (?st\<lparr>parseError := ''Combined opts can't be non-boolean: c''\<rparr>)"
    using short_cluster_step[of 1 "[''prog'', ''-cab'']" ?st Map.empty, THEN conjunct1]
    by (simp add: ev ERR_NONBOOL_MULTI_def)
  have b: "step ?st Map.empty [''prog'', ''-cfoo''] 1 =
      Next (?st\<lparr>stringVals := [''kc'' \<mapsto> ''foo'']\<rparr>) [''kc'' \<mapsto> True] 1"
    using short_cluster_step[of 1 "[''prog'', ''-cfoo'']" ?st Map.empty, THEN conjunct2]
    by (simp add: ev)
  have c: "step ?st Map.empty [''prog'', ''-ab''] 1 =
      Next (?st\<lparr>boolVals := (\<lambda>x. if x \<in> (\<lambda>c. key (the (shortKeys ?st c))) `
                                     set (explode (stripDashes ([''prog'', ''-ab''] ! 1)))
                            then Some True else boolVals ?st x)\<rparr>) Map.empty 1"
    using short_cluster_step[of 1 "[''prog'', ''-ab'']" ?st Map.empty, THEN conjunct1]
    by (simp add: ev)
  show ?thesis
    unfolding a b c by (simp add: ev)
qed

text \<open>
  Claim C3 at a short form above ASCII. \<open>RegisterOpt\<close> takes any one byte as a short form,
  here the byte E9, for a non-boolean option. The token made of a dash, that byte and
  \<open>val\<close> is a short-form token whose first character is the registered short form and
  whose other characters are no short forms, so C3 has \<open>val\<close> bound. The code takes
  \<open>string(stripped[0])\<close> for the first character, which for a byte from 128 on is the two
  bytes of its UTF-8 encoding; no short key has two bytes, so the scan stops with
  \<open>ERR_NO_OPT\<close> and binds nothing. The same option is found when the byte stands alone
  after the dash, with the value in the next token, and in the equals form.
\<close>

theorem smushed_high_byte_is_unknown:
  "fst (RegisterOpt init_state ''k'' [] [CHR 0xE9] False False ''u'') = None \<and>
   map_option (\<lambda>p. (key p, isBool p))
     (shortKeys (run [CallRegisterOpt ''k'' [] [CHR 0xE9] False False ''u'']) [CHR 0xE9]) =
     Some (''k'', False) \<and>
   map_option (\<lambda>s. (GetError s, stringVals s ''k''))
     (Parse (run [CallRegisterOpt ''k'' [] [CHR 0xE9] False False ''u''])
        [''prog'', [CHR ''-'', CHR 0xE9, CHR ''v'', CHR ''a'', CHR ''l'']]) =
     Some (Some (''No such option: '' @ [CHR 0xC3, CHR 0xA9]), None) \<and>
   map_option (\<lambda>s. (GetError s, stringVals s ''k''))
     (Parse (run [CallRegisterOpt ''k'' [] [CHR 0xE9] False False ''u''])
        [''prog'', [CHR ''-'', CHR 0xE9], ''val'']) =
     Some (None, Some ''val'') \<and>
   map_option (\<lambda>s. (GetError s, stringVals s ''k''))
     (Parse (run [CallRegisterOpt ''k'' [] [CHR 0xE9] False False ''u''])
        [''prog'', [CHR ''-'', CHR 0xE9, CHR ''='', CHR ''v'', CHR ''a'', CHR ''l'']]) =
     Some (None, Some ''val'')"
  by (simp add: run_def eval_defs inRange_def char_of_def bit_Suc_0_iff GetError_def HasError_def
      ERR_NO_OPT_def)

section \<open>The scan stops at the first error\<close>

text \<open>A step that stops has set the error, to a message that is not empty, and
  nothing else.\<close>

lemma getVal_Err_nonempty: "getValForEqualsSignArg st arg = Err e \<Longrightarrow> e \<noteq> []"
  by (auto simp: getValForEqualsSignArg_def ERR_MISSING_VAL_def ERR_NO_OPT_def
      ERR_BOOL_WITH_VAL_def split: option.splits if_splits)

lemma equalsCase_Stop:
  "equalsCase st f i arg = Stop st' \<Longrightarrow> \<exists>e. e \<noteq> [] \<and> st' = st\<lparr>parseError := e\<rparr>"
  by (auto simp: equalsCase_def split: result.splits prod.splits dest: getVal_Err_nonempty)

lemma lookaheadCase_Stop:
  "lookaheadCase st f args i arg opt = Stop st' \<Longrightarrow> \<exists>e. e \<noteq> [] \<and> st' = st\<lparr>parseError := e\<rparr>"
  by (auto simp: lookaheadCase_def Let_def ERR_MISSING_VAL_def split: if_splits)

lemma longCase_Stop:
  "longCase st f args i arg = Stop st' \<Longrightarrow> \<exists>e. e \<noteq> [] \<and> st' = st\<lparr>parseError := e\<rparr>"
  by (auto simp: longCase_def Let_def ERR_NO_OPT_def split: option.splits if_splits
      dest: lookaheadCase_Stop)

lemma multiCase_Stop:
  "multiCase st f i ks = Stop st' \<Longrightarrow> \<exists>e. e \<noteq> [] \<and> st' = st\<lparr>parseError := e\<rparr>"
  by (auto simp: multiCase_def ERR_NONBOOL_MULTI_def split: multi_check.splits option.splits)

lemma smushedCase_Stop:
  "smushedCase st f i arg s = Stop st' \<Longrightarrow> \<exists>e. e \<noteq> [] \<and> st' = st\<lparr>parseError := e\<rparr>"
  by (auto simp: smushedCase_def Let_def ERR_NO_OPT_def ERR_BOOL_WITH_VAL_def
      split: list.splits option.splits if_splits)

lemma shortCase_Stop:
  "shortCase st f args i arg = Stop st' \<Longrightarrow> \<exists>e. e \<noteq> [] \<and> st' = st\<lparr>parseError := e\<rparr>"
  by (auto simp: shortCase_def Let_def ERR_NO_OPT_def split: option.splits if_splits
      dest: lookaheadCase_Stop multiCase_Stop smushedCase_Stop)

lemma step_Stop:
  "step st f args i = Stop st' \<Longrightarrow> \<exists>e. e \<noteq> [] \<and> st' = st\<lparr>parseError := e\<rparr>"
  by (auto simp: step_def Let_def split: if_splits
      dest: equalsCase_Stop longCase_Stop shortCase_Stop)

text \<open>Where a step leaves the loop counter.\<close>

lemma lookaheadCase_Next:
  "lookaheadCase st f args i arg opt = Next st' f' i' \<Longrightarrow>
     i' = Suc i \<and> Suc i < length args"
  by (auto simp: lookaheadCase_eq split: if_splits)

lemma lookaheadCase_cong:
  "lookaheadForVal args i = lookaheadForVal args' i \<Longrightarrow>
   lookaheadCase st f args i arg opt = lookaheadCase st f args' i arg opt"
  by (simp add: lookaheadCase_def)

lemma longCase_cong:
  "lookaheadForVal args i = lookaheadForVal args' i \<Longrightarrow>
   longCase st f args i arg = longCase st f args' i arg"
  by (auto simp: longCase_def Let_def lookaheadCase_cong[of args i args'] split: option.splits)

lemma shortCase_cong:
  "lookaheadForVal args i = lookaheadForVal args' i \<Longrightarrow>
   shortCase st f args i arg = shortCase st f args' i arg"
  by (auto simp: shortCase_def Let_def lookaheadCase_cong[of args i args'] split: option.splits)

lemma step_cong:
  "args ! i = args' ! i \<Longrightarrow> lookaheadForVal args i = lookaheadForVal args' i \<Longrightarrow>
   step st f args i = step st f args' i"
  by (auto simp: step_def Let_def longCase_cong[of args i args'] shortCase_cong[of args i args'])

lemma equalsCase_Next: "equalsCase st f i arg = Next st' f' i' \<Longrightarrow> i' = i"
  by (auto simp: equalsCase_def split: result.splits prod.splits)

lemma multiCase_Next: "multiCase st f i ks = Next st' f' i' \<Longrightarrow> i' = i"
  by (auto simp: multiCase_def split: multi_check.splits option.splits)

lemma smushedCase_Next: "smushedCase st f i arg s = Next st' f' i' \<Longrightarrow> i' = i"
  by (auto simp: smushedCase_def Let_def split: list.splits option.splits if_splits)

text \<open>A step that leaves the counter alone has not looked ahead.\<close>

lemma longCase_same:
  "longCase st f args i arg = Next st' f' i \<Longrightarrow> longCase st f args' i arg = Next st' f' i"
  by (auto simp: longCase_def Let_def split: option.splits if_splits dest: lookaheadCase_Next)

lemma shortCase_same:
  "shortCase st f args i arg = Next st' f' i \<Longrightarrow> shortCase st f args' i arg = Next st' f' i"
  by (auto simp: shortCase_def Let_def split: option.splits if_splits dest: lookaheadCase_Next)

lemma step_same:
  "step st f args i = Next st' f' i \<Longrightarrow> args' ! i = args ! i \<Longrightarrow>
   step st f args' i = Next st' f' i"
  by (auto simp: step_def Let_def split: if_splits dest: longCase_same shortCase_same)

lemma step_Next_index:
  "step st f args i = Next st' f' i' \<Longrightarrow> i' = i \<or> i' = Suc i \<and> Suc i < length args"
  by (auto simp: step_def longCase_def shortCase_def Let_def split: if_splits option.splits
      dest: equalsCase_Next lookaheadCase_Next multiCase_Next smushedCase_Next)

lemma lookaheadForVal_take:
  "Suc i < j \<Longrightarrow> lookaheadForVal (take j args) i = lookaheadForVal args i"
  by (auto simp: lookaheadForVal_eq)

lemma step_take:
  assumes "step st f args i = Next st' f' i'" and "i' < j"
  shows "step st f (take j args) i = Next st' f' i'"
proof -
  from step_Next_index[OF assms(1)] show ?thesis
  proof
    assume "i' = i"
    with assms show ?thesis by (auto intro: step_same)
  next
    assume "i' = Suc i \<and> Suc i < length args"
    with assms(2) have "Suc i < j" by simp
    then have "step st f (take j args) i = step st f args i"
      by (intro step_cong) (simp_all add: lookaheadForVal_take)
    with assms(1) show ?thesis by simp
  qed
qed

lemma parseLoop_halts_at:
  "parseLoop st f args i = Halted st' \<Longrightarrow>
   \<exists>j st\<^sub>j f\<^sub>j. i \<le> j \<and> j < length args \<and>
      parseLoop st f (take j args) i = Done st\<^sub>j f\<^sub>j \<and> step st\<^sub>j f\<^sub>j args j = Stop st'"
proof (induction st f args i rule: parseLoop.induct)
  case (1 st f args i)
  from "1.prems" have lt: "i < length args"
    by (subst (asm) parseLoop.simps) (simp split: if_splits)
  show ?case
  proof (cases "step st f args i")
    case (Stop s)
    with "1.prems" lt have "s = st'" by (subst (asm) parseLoop.simps) simp
    moreover have "parseLoop st f (take i args) i = Done st f"
      by (subst parseLoop.simps) simp
    ultimately show ?thesis using Stop lt by blast
  next
    case Crash
    with "1.prems" lt show ?thesis by (subst (asm) parseLoop.simps) simp
  next
    case (Next st1 f1 i1)
    with "1.prems" lt have h: "parseLoop st1 f1 args (i1 + 1) = Halted st'"
      by (subst (asm) parseLoop.simps) simp
    from "1.IH"[OF lt Next h] obtain j st\<^sub>j f\<^sub>j where j: "i1 + 1 \<le> j" "j < length args"
      "parseLoop st1 f1 (take j args) (i1 + 1) = Done st\<^sub>j f\<^sub>j" "step st\<^sub>j f\<^sub>j args j = Stop st'"
      by blast
    from step_Next_index[OF Next] have ii: "i \<le> i1" by auto
    from j(1) have "i1 < j" by simp
    from step_take[OF Next this] have "step st f (take j args) i = Next st1 f1 i1" .
    moreover from ii j have "i < length (take j args)" by simp
    ultimately have "parseLoop st f (take j args) i = Done st\<^sub>j f\<^sub>j"
      using j(3) by (subst parseLoop.simps) simp
    with j ii show ?thesis by (intro exI[of _ j]) auto
  qed
qed


lemma Parse_of_Done:
  "parseLoop st Map.empty args 1 = Done st' f' \<Longrightarrow>
   Parse st args =
     Some (if requiredOpts st' \<noteq> []
           then st'\<lparr>parseError := getMissingReqOptsError st' f' (requiredOpts st')\<rparr>
           else st')"
proof (cases "length args < 2")
  case True
  assume d: "parseLoop st Map.empty args 1 = Done st' f'"
  from True have "parseLoop st Map.empty args 1 = Done st Map.empty"
    by (subst parseLoop.simps) auto
  with d have "st' = st" "f' = Map.empty" by simp_all
  with True show ?thesis by (simp add: Parse_def)
next
  case False
  assume "parseLoop st Map.empty args 1 = Done st' f'"
  with False show ?thesis by (simp add: Parse_def)
qed

lemma step_of_take:
  assumes "step st f (take j args) i = Next st1 f1 i1" and "i < j"
  shows "step st f args i = Next st1 f1 i1"
proof -
  from step_Next_index[OF assms(1)] show ?thesis
  proof
    assume "i1 = i"
    with assms show ?thesis by (auto intro: step_same)
  next
    assume "i1 = Suc i \<and> Suc i < length (take j args)"
    then have "Suc i < j" by simp
    then have "step st f (take j args) i = step st f args i"
      by (intro step_cong) (simp_all add: lookaheadForVal_take)
    with assms(1) show ?thesis by simp
  qed
qed

text \<open>If the tokens before \<open>j\<close>, scanned alone, leave the loop at its end and the step at
  token \<open>j\<close> fails, the loop on all the tokens returns there.\<close>

lemma parseLoop_stops_at:
  "parseLoop st f (take j args) i = Done st\<^sub>j f\<^sub>j \<Longrightarrow> i \<le> j \<Longrightarrow> j < length args \<Longrightarrow>
   step st\<^sub>j f\<^sub>j args j = Stop st' \<Longrightarrow> parseLoop st f args i = Halted st'"
proof (induction "j - i" arbitrary: i st f rule: less_induct)
  case less
  show ?case
  proof (cases "i < j")
    case False
    with less.prems(2) have ij: "i = j" by simp
    with less.prems(1) have "st\<^sub>j = st" "f\<^sub>j = f"
      by (subst (asm) parseLoop.simps, simp)+
    with less.prems(3,4) ij show ?thesis by (subst parseLoop.simps) simp
  next
    case True
    with less.prems(3) have lt: "i < length (take j args)" by simp
    show ?thesis
    proof (cases "step st f (take j args) i")
      case (Next st1 f1 i1)
      with less.prems(1) lt have d: "parseLoop st1 f1 (take j args) (i1 + 1) = Done st\<^sub>j f\<^sub>j"
        by (subst (asm) parseLoop.simps) simp
      from step_Next_index[OF Next] True have i1: "i \<le> i1" "i1 + 1 \<le> j" by auto
      then have "j - (i1 + 1) < j - i" using True by simp
      from less.hyps[OF this d i1(2) less.prems(3,4)]
      have "parseLoop st1 f1 args (i1 + 1) = Halted st'" .
      moreover from step_of_take[OF Next True] have "step st f args i = Next st1 f1 i1" .
      moreover from True less.prems(3) have "i < length args" by simp
      ultimately show ?thesis by (subst parseLoop.simps) simp
    next
      case (Stop s)
      with less.prems(1) lt show ?thesis by (subst (asm) parseLoop.simps) simp
    next
      case Crash
      with less.prems(1) lt show ?thesis by (subst (asm) parseLoop.simps) simp
    qed
  qed
qed

lemma take_eq_nth:
  assumes "take n a = take n b" and "i < n"
  shows "a ! i = b ! i"
  using assms by (metis nth_take)

lemma take_eq_length:
  assumes "take n a = take n b" and "i < n" and "i < length b"
  shows "i < length a"
proof -
  from assms(1) have "min n (length a) = min n (length b)"
    by (metis length_take min.commute)
  with assms(2,3) show ?thesis by simp
qed

lemma lookahead_of_prefix:
  assumes "take (j + 2) a = take (j + 2) b"
  shows "lookaheadForVal a j = lookaheadForVal b j"
proof -
  have "lookaheadForVal a j = lookaheadForVal (take (j + 2) a) j"
    by (simp add: lookaheadForVal_take)
  also have "\<dots> = lookaheadForVal (take (j + 2) b) j" by (simp only: assms)
  also have "\<dots> = lookaheadForVal b j" by (simp add: lookaheadForVal_take)
  finally show ?thesis .
qed

lemma take_of_prefix:
  assumes "take (j + 2) a = take (j + 2) b"
  shows "take j a = take j b"
proof -
  have "take j a = take j (take (j + 2) a)" by (simp add: min_def)
  also have "\<dots> = take j (take (j + 2) b)" by (simp only: assms)
  also have "\<dots> = take j b" by (simp add: min_def)
  finally show ?thesis .
qed

text \<open>
  Claim C6. Let \<open>j\<close> be the index of the first token that fails: the tokens before \<open>j\<close>,
  scanned alone, leave the loop at its end without error, in the state \<open>st\<^sub>j\<close>, and the
  step at token \<open>j\<close> fails in \<open>st\<^sub>j\<close>. Then the loop returns at \<open>j\<close>, and \<open>Parse\<close> leaves the
  state of that step: it has an error and differs from \<open>st\<^sub>j\<close> in the error only, so what
  is bound and what is positional is what \<open>Parse\<close> leaves on the tokens before \<open>j\<close>; and
  \<open>Parse\<close> leaves the same state on every token sequence that agrees with this one up to
  the token after \<open>j\<close> (the one the lookahead may inspect), whatever follows. Conversely,
  whenever the loop returns after an error, there is such a first failing token.
\<close>

theorem fail_fast:
  "(\<forall>j st\<^sub>j f\<^sub>j st'.
      1 \<le> j \<and> j < length args \<and>
      parseLoop st Map.empty (take j args) 1 = Done st\<^sub>j f\<^sub>j \<and>
      step st\<^sub>j f\<^sub>j args j = Stop st' \<longrightarrow>
        parseLoop st Map.empty args 1 = Halted st' \<and>
        Parse st args = Some st' \<and> HasError st' \<and>
        st' = st\<^sub>j\<lparr>parseError := parseError st'\<rparr> \<and>
        (\<exists>s. Parse st (take j args) = Some s \<and> boolVals s = boolVals st' \<and>
             stringVals s = stringVals st' \<and> extraArgs s = extraArgs st') \<and>
        (\<forall>args'. take (j + 2) args' = take (j + 2) args \<longrightarrow> Parse st args' = Some st')) \<and>
   (\<forall>st'. parseLoop st Map.empty args 1 = Halted st' \<longrightarrow>
      (\<exists>j st\<^sub>j f\<^sub>j. 1 \<le> j \<and> j < length args \<and>
         parseLoop st Map.empty (take j args) 1 = Done st\<^sub>j f\<^sub>j \<and>
         step st\<^sub>j f\<^sub>j args j = Stop st'))"
proof (intro conjI allI impI)
  fix j st\<^sub>j f\<^sub>j st'
  assume a: "1 \<le> j \<and> j < length args \<and>
      parseLoop st Map.empty (take j args) 1 = Done st\<^sub>j f\<^sub>j \<and>
      step st\<^sub>j f\<^sub>j args j = Stop st'"
  then have j: "1 \<le> j" "j < length args"
    and d: "parseLoop st Map.empty (take j args) 1 = Done st\<^sub>j f\<^sub>j"
    and s: "step st\<^sub>j f\<^sub>j args j = Stop st'" by simp_all
  have stops: "Parse st b = Some st'" if b: "take (j + 2) b = take (j + 2) args" for b
  proof -
    have jb: "j < length b" using take_eq_length[OF b _ j(2)] by simp
    have "b ! j = args ! j" using take_eq_nth[OF b, of j] by simp
    with lookahead_of_prefix[OF b] have "step st\<^sub>j f\<^sub>j b j = step st\<^sub>j f\<^sub>j args j"
      by (intro step_cong)
    with s have sb: "step st\<^sub>j f\<^sub>j b j = Stop st'" by simp
    from d take_of_prefix[OF b] have db: "parseLoop st Map.empty (take j b) 1 = Done st\<^sub>j f\<^sub>j"
      by simp
    from parseLoop_stops_at[OF db j(1) jb sb] have "parseLoop st Map.empty b 1 = Halted st'" .
    moreover from j(1) jb have "\<not> length b < 2" by simp
    ultimately show ?thesis by (simp add: Parse_def)
  qed
  show "parseLoop st Map.empty args 1 = Halted st'"
    by (rule parseLoop_stops_at[OF d j s])
  show "Parse st args = Some st'" by (rule stops) simp
  from step_Stop[OF s] obtain e where e: "e \<noteq> []" "st' = st\<^sub>j\<lparr>parseError := e\<rparr>"
    by blast
  from e show "HasError st'" by (simp add: HasError_def)
  from e show "st' = st\<^sub>j\<lparr>parseError := parseError st'\<rparr>" by simp
  show "\<exists>s. Parse st (take j args) = Some s \<and> boolVals s = boolVals st' \<and>
      stringVals s = stringVals st' \<and> extraArgs s = extraArgs st'"
    unfolding Parse_of_Done[OF d] using e(2) by simp
  fix args'
  assume "take (j + 2) args' = take (j + 2) args"
  then show "Parse st args' = Some st'" by (rule stops)
next
  fix st'
  assume "parseLoop st Map.empty args 1 = Halted st'"
  from parseLoop_halts_at[OF this]
  show "\<exists>j st\<^sub>j f\<^sub>j. 1 \<le> j \<and> j < length args \<and>
         parseLoop st Map.empty (take j args) 1 = Done st\<^sub>j f\<^sub>j \<and>
         step st\<^sub>j f\<^sub>j args j = Stop st'"
    by simp
qed

theorem fail_fast_witness:
  "Parse (run [CallRegisterOpt ''k'' ''test'' ''t'' False False ''u''])
      [''prog'', ''-t=1'', ''x'', ''--nope'', ''-t''] =
     Some ((run [CallRegisterOpt ''k'' ''test'' ''t'' False False ''u''])
             \<lparr>stringVals := [''k'' \<mapsto> ''1''], extraArgs := [''x''],
               parseError := ''No such option: --nope''\<rparr>)"
proof -
  let ?st = "run [CallRegisterOpt ''k'' ''test'' ''t'' False False ''u'']"
  let ?args = "[''prog'', ''-t=1'', ''x'', ''--nope'', ''-t'']"
  let ?stj = "?st\<lparr>stringVals := [''k'' \<mapsto> ''1''], extraArgs := [''x'']\<rparr>"
  let ?st' = "?st\<lparr>stringVals := [''k'' \<mapsto> ''1''], extraArgs := [''x''],
               parseError := ''No such option: --nope''\<rparr>"
  have d: "parseLoop ?st Map.empty (take 3 ?args) 1 = Done ?stj Map.empty"
    by (simp add: run_def eval_defs)
  have s: "step ?stj Map.empty ?args 3 = Stop ?st'"
    by (simp add: run_def eval_defs ERR_NO_OPT_def)
  have "1 \<le> (3::nat) \<and> 3 < length ?args \<and>
      parseLoop ?st Map.empty (take 3 ?args) 1 = Done ?stj Map.empty \<and>
      step ?stj Map.empty ?args 3 = Stop ?st'"
    using d s by simp
  from fail_fast[of ?args ?st, THEN conjunct1, rule_format, OF this, THEN conjunct2,
      THEN conjunct1]
  show ?thesis .
qed

section \<open>Required options\<close>



















section \<open>The lone double dash\<close>

text \<open>In any registry the lone \<open>--\<close> is the short-form token of the short form \<open>-\<close>: unknown
  unless that short form is registered.\<close>

lemma lone_double_dash_step:
  "args ! i = ''--'' \<Longrightarrow>
   step st f args i =
     (case shortKeys st ''-'' of
        None \<Rightarrow> Stop (st\<lparr>parseError := ERR_NO_OPT @ ''--''\<rparr>)
      | Some opt \<Rightarrow>
          if isBool opt
          then Next (st\<lparr>boolVals := (boolVals st)(key opt \<mapsto> True)\<rparr>) f i
          else lookaheadCase st f args i ''--'' opt)"
  by (simp add: step_def shortCase_def stripDashes_def dotPlusEquals_def newline_def
      split: option.splits)

section \<open>Parse returns\<close>

text \<open>No step dereferences a nil option or indexes an empty string: \<open>Parse\<close> never panics.\<close>

lemma getVal_no_panic:
  "singleDash arg \<Longrightarrow> getValForEqualsSignArg st arg \<noteq> NilPanic"
  by (auto simp: getValForEqualsSignArg_def split: option.splits)

lemma checkMulti_no_nil: "\<forall>k\<in>set ks. sk k \<noteq> None \<Longrightarrow> checkMulti sk ks \<noteq> NilOpt"
  by (simp add: checkMulti_eq split: list.splits)

lemma multiCase_no_crash:
  "\<forall>k\<in>set ks. shortKeys st k \<noteq> None \<Longrightarrow> multiCase st f i ks \<noteq> Crash"
  by (simp add: multiCase_eq split: list.splits)

lemma step_no_crash: "step st f args i \<noteq> Crash"
proof -
  let ?a = "args ! i"
  have eq: "singleDash ?a \<Longrightarrow> equalsCase st f i ?a \<noteq> Crash"
    using getVal_no_panic[of ?a st]
    by (auto simp: equalsCase_def split: result.splits prod.splits)
  have la: "\<And>p. lookaheadCase st f args i ?a p \<noteq> Crash"
    by (simp add: lookaheadCase_eq)
  have lg: "longCase st f args i ?a \<noteq> Crash"
    using la by (auto simp: longCase_def Let_def split: option.splits)
  have sm: "stripDashes ?a \<noteq> [] \<Longrightarrow> smushedCase st f i ?a (stripDashes ?a) \<noteq> Crash"
    by (auto simp: smushedCase_def Let_def split: list.splits option.splits)
  have ne: "singleDash ?a \<Longrightarrow> stripDashes ?a \<noteq> []"
    by (cases ?a rule: multiDash.cases) (auto simp: stripDashes_def)
  have sh: "singleDash ?a \<Longrightarrow> shortCase st f args i ?a \<noteq> Crash"
    using la sm ne multiCase_no_crash[of _ st f i]
    by (auto simp: shortCase_def Let_def getMultiOptKeys_eq split: option.splits if_splits)
  show ?thesis
    using eq lg sh singleDashEquals_singleDash[of ?a] multiDashEquals_multiDash[of ?a]
      multiDash_singleDash[of ?a]
    by (auto simp: step_def Let_def)
qed

lemma parseLoop_no_panic: "parseLoop st f args i \<noteq> Panicked"
proof (induction st f args i rule: parseLoop.induct)
  case (1 st f args i)
  show ?case
  proof (cases "i < length args")
    case False
    then show ?thesis by (subst parseLoop.simps) simp
  next
    case True
    show ?thesis
    proof (cases "step st f args i")
      case (Next st1 f1 i1)
      from "1.IH"[OF True Next] True Next show ?thesis by (subst parseLoop.simps) simp
    next
      case (Stop s)
      with True show ?thesis by (subst parseLoop.simps) simp
    next
      case Crash
      with step_no_crash show ?thesis by blast
    qed
  qed
qed

lemma Parse_returns: "\<exists>st'. Parse st args = Some st'"
proof (cases "parseLoop st Map.empty args 1")
  case Panicked
  with parseLoop_no_panic show ?thesis by blast
qed (simp_all add: Parse_def Let_def)

end
